theory Spec2Isabelle
  imports Complex_Main "HOL-Library.Sublist"
begin

section \<open>The fuzzy search and ranking engine of App.jsx\<close>

text \<open>
  A shallow embedding of the search pipeline of \<^verbatim>\<open>src/App.jsx\<close>: query preprocessing,
  spelling variations, Levenshtein distance, relevance scoring, and the \<^verbatim>\<open>fetchMovies\<close>
  orchestration with its fan-out, merge, deduplication, sort and cut.

  Conventions of the model.
  \<^item> A JavaScript string is a \<^typ>\<open>string\<close>, one \<^typ>\<open>char\<close> per code unit, read as ASCII
    text: \<^verbatim>\<open>toLowerCase\<close> maps \<^verbatim>\<open>A-Z\<close> to \<^verbatim>\<open>a-z\<close> and \<^verbatim>\<open>trim\<close> strips ASCII white space.
  \<^item> A JavaScript number is a \<open>jsnum\<close>: an exact rational, an infinity or NaN. The
    rounding of IEEE doubles is not modelled; division by zero is.
  \<^item> An exception is a value \<open>Inl e\<close> of a sum type; the \<^verbatim>\<open>try/catch/finally\<close> of
    \<^verbatim>\<open>fetchMovies\<close> is explicit.
  \<^item> The network and the counter collaborator are parameters: a function giving the
    outcome of each dispatched request, and a function giving how the counter call
    settles.
\<close>

subsection \<open>JavaScript numbers\<close>

datatype jsnum = Num rat | PosInf | NegInf | NaN

text \<open>\<^verbatim>\<open>a / b\<close> for finite operands; every division of the source has finite operands.\<close>

definition js_div :: "rat \<Rightarrow> rat \<Rightarrow> jsnum" where
  "js_div a b =
     (if b = 0 then (if a = 0 then NaN else if 0 < a then PosInf else NegInf)
      else Num (a / b))"

fun js_add :: "jsnum \<Rightarrow> jsnum \<Rightarrow> jsnum" where
  "js_add (Num a) (Num b) = Num (a + b)"
| "js_add NaN _ = NaN"
| "js_add _ NaN = NaN"
| "js_add PosInf NegInf = NaN"
| "js_add NegInf PosInf = NaN"
| "js_add PosInf _ = PosInf"
| "js_add _ PosInf = PosInf"
| "js_add NegInf _ = NegInf"
| "js_add _ NegInf = NegInf"

fun js_neg :: "jsnum \<Rightarrow> jsnum" where
  "js_neg (Num a) = Num (- a)"
| "js_neg PosInf = NegInf"
| "js_neg NegInf = PosInf"
| "js_neg NaN = NaN"

definition js_sub :: "jsnum \<Rightarrow> jsnum \<Rightarrow> jsnum" where
  "js_sub a b = js_add a (js_neg b)"

fun js_mul :: "jsnum \<Rightarrow> jsnum \<Rightarrow> jsnum" where
  "js_mul (Num a) (Num b) = Num (a * b)"
| "js_mul NaN _ = NaN"
| "js_mul _ NaN = NaN"
| "js_mul PosInf (Num b) = (if b = 0 then NaN else if 0 < b then PosInf else NegInf)"
| "js_mul NegInf (Num b) = (if b = 0 then NaN else if 0 < b then NegInf else PosInf)"
| "js_mul (Num a) PosInf = (if a = 0 then NaN else if 0 < a then PosInf else NegInf)"
| "js_mul (Num a) NegInf = (if a = 0 then NaN else if 0 < a then NegInf else PosInf)"
| "js_mul PosInf PosInf = PosInf"
| "js_mul NegInf NegInf = PosInf"
| "js_mul PosInf NegInf = NegInf"
| "js_mul NegInf PosInf = NegInf"

text \<open>\<^verbatim>\<open>a > b\<close> and \<^verbatim>\<open>a >= b\<close>: false as soon as one side is NaN.\<close>

fun js_gt :: "jsnum \<Rightarrow> jsnum \<Rightarrow> bool" where
  "js_gt (Num a) (Num b) = (b < a)"
| "js_gt NaN _ = False"
| "js_gt _ NaN = False"
| "js_gt PosInf PosInf = False"
| "js_gt PosInf _ = True"
| "js_gt _ PosInf = False"
| "js_gt NegInf _ = False"
| "js_gt _ NegInf = True"

definition js_ge :: "jsnum \<Rightarrow> jsnum \<Rightarrow> bool" where
  "js_ge a b = (a \<noteq> NaN \<and> b \<noteq> NaN \<and> (js_gt a b \<or> a = b))"

text \<open>\<^verbatim>\<open>Math.max\<close> and \<^verbatim>\<open>Math.min\<close>: NaN as soon as one argument is NaN.\<close>

definition js_max :: "jsnum \<Rightarrow> jsnum \<Rightarrow> jsnum" where
  "js_max a b = (if a = NaN \<or> b = NaN then NaN else if js_gt b a then b else a)"

definition js_min :: "jsnum \<Rightarrow> jsnum \<Rightarrow> jsnum" where
  "js_min a b = (if a = NaN \<or> b = NaN then NaN else if js_gt a b then b else a)"

subsection \<open>JavaScript strings and arrays\<close>

definition toLowerChar :: "char \<Rightarrow> char" where
  "toLowerChar c =
     (case map_of (zip ''ABCDEFGHIJKLMNOPQRSTUVWXYZ'' ''abcdefghijklmnopqrstuvwxyz'') c of
        Some l \<Rightarrow> l
      | None \<Rightarrow> c)"

definition toLowerCase :: "string \<Rightarrow> string" where
  "toLowerCase s = map toLowerChar s"

definition is_space :: "char \<Rightarrow> bool" where
  "is_space c = (c \<in> set [CHR '' '', CHR 0x09, CHR 0x0A, CHR 0x0B, CHR 0x0C, CHR 0x0D])"

definition trim :: "string \<Rightarrow> string" where
  "trim s = rev (dropWhile is_space (rev (dropWhile is_space s)))"

text \<open>\<^verbatim>\<open>s.charAt(i)\<close> and \<^verbatim>\<open>s[i]\<close> in range: a string of one character.\<close>

definition charAt :: "string \<Rightarrow> nat \<Rightarrow> string" where
  "charAt s i = (if i < length s then [s ! i] else [])"

text \<open>\<^verbatim>\<open>s.substring(a, b)\<close> for \<open>a \<le> b\<close>, and \<^verbatim>\<open>s.substring(a)\<close>.\<close>

definition substring :: "string \<Rightarrow> nat \<Rightarrow> nat \<Rightarrow> string" where
  "substring s a b = take (b - a) (drop a s)"

definition substring_from :: "string \<Rightarrow> nat \<Rightarrow> string" where
  "substring_from s a = drop a s"

definition startsWith :: "string \<Rightarrow> string \<Rightarrow> bool" where
  "startsWith s q = (take (length q) s = q)"

definition js_includes :: "string \<Rightarrow> string \<Rightarrow> bool" where
  "js_includes s q = list_ex (\<lambda>i. startsWith (drop i s) q) [0..<Suc (length s)]"

text \<open>\<^verbatim>\<open>s.split(" ")\<close>: the pieces between single spaces, empty pieces included.\<close>

fun split_space :: "string \<Rightarrow> string list" where
  "split_space [] = [[]]"
| "split_space (c # cs) =
     (if c = CHR '' '' then [] # split_space cs
      else (case split_space cs of w # ws \<Rightarrow> (c # w) # ws | [] \<Rightarrow> [[c]]))"

text \<open>\<^verbatim>\<open>s.indexOf(c, from)\<close>: the first position at or after \<open>from\<close>, or \<open>-1\<close>.\<close>

fun index_in :: "string \<Rightarrow> string \<Rightarrow> nat option" where
  "index_in [] c = None"
| "index_in (x # xs) c = (if [x] = c then Some 0 else map_option Suc (index_in xs c))"

definition indexOf :: "string \<Rightarrow> string \<Rightarrow> int \<Rightarrow> int" where
  "indexOf s c from =
     (let k = nat (max 0 from) in
      case index_in (drop k s) c of None \<Rightarrow> - 1 | Some d \<Rightarrow> int (k + d))"

text \<open>\<^verbatim>\<open>xs.slice(a, b)\<close> for \<open>a \<le> b\<close>.\<close>

definition slice :: "'a list \<Rightarrow> nat \<Rightarrow> nat \<Rightarrow> 'a list" where
  "slice xs a b = take (b - a) (drop a xs)"

text \<open>
  \<^verbatim>\<open>xs[i] = v\<close> on an array: an index below the length overwrites, the index equal to
  the length extends the array by one element. The source never writes further out.
\<close>

definition js_put :: "'a list \<Rightarrow> nat \<Rightarrow> 'a \<Rightarrow> 'a list" where
  "js_put xs i v = (if i < length xs then xs[i := v] else xs @ [v])"

fun findIndex_from :: "('a \<Rightarrow> bool) \<Rightarrow> 'a list \<Rightarrow> nat \<Rightarrow> int" where
  "findIndex_from p [] k = - 1"
| "findIndex_from p (x # xs) k = (if p x then int k else findIndex_from p xs (Suc k))"

definition findIndex :: "('a \<Rightarrow> bool) \<Rightarrow> 'a list \<Rightarrow> int" where
  "findIndex p xs = findIndex_from p xs 0"

text \<open>
  Property names that every object literal inherits from \<^verbatim>\<open>Object.prototype\<close>. Reading
  one of them from an object literal that has no own property of that name yields a
  function (or, for \<^verbatim>\<open>__proto__\<close>, the prototype object), which is truthy.
\<close>

definition object_prototype_props :: "string list" where
  "object_prototype_props =
     [''constructor'', ''__defineGetter__'', ''__defineSetter__'', ''hasOwnProperty'',
      ''__lookupGetter__'', ''__lookupSetter__'', ''isPrototypeOf'',
      ''propertyIsEnumerable'', ''toString'', ''valueOf'', ''__proto__'',
      ''toLocaleString'']"

datatype jsval = JString string | JObject

datatype error = TypeError | NetworkError | JsonError | FailedToFetch | CounterError

subsection \<open>preprocessSearchTerm\<close>

definition corrections :: "(string \<times> string) list" where
  "corrections =
     [(''spiderman'', ''spider-man''),
      (''xmen'', ''x-men''),
      (''batman'', ''batman''),
      (''superman'', ''superman''),
      (''ironman'', ''iron man''),
      (''kerete'', ''karate''),
      (''kerate'', ''karate''),
      (''karete'', ''karate''),
      (''dimon'', ''demon''),
      (''deamon'', ''demon''),
      (''daemon'', ''demon'')]"

text \<open>
  \<^verbatim>\<open>corrections[lowerTerm] || term\<close>. Every own value is a non-empty string, hence truthy.
  A key that names an inherited property reads that property, which is not a string.
\<close>

definition preprocessSearchTerm :: "string \<Rightarrow> jsval" where
  "preprocessSearchTerm term =
     (let lowerTerm = trim (toLowerCase term) in
      case map_of corrections lowerTerm of
        Some c \<Rightarrow> JString c
      | None \<Rightarrow> if lowerTerm \<in> set object_prototype_props then JObject else JString term)"

subsection \<open>generateSearchVariations\<close>

definition substitutions :: "(string \<times> string list) list" where
  "substitutions =
     [(''i'', [''e'', ''a'']),
      (''e'', [''i'', ''a'']),
      (''a'', [''e'', ''i'']),
      (''o'', [''u'', ''a'']),
      (''u'', [''o'', ''i'']),
      (''y'', [''i'', ''e'']),
      (''c'', [''k'', ''s'']),
      (''k'', [''c'', ''ck'']),
      (''s'', [''c'', ''z'']),
      (''z'', [''s'']),
      (''ph'', [''f'']),
      (''f'', [''ph'']),
      (''tion'', [''sion'']),
      (''sion'', [''tion''])]"

text \<open>The candidate built at position \<open>i\<close> from one substitute.\<close>

definition variation_at :: "string \<Rightarrow> nat \<Rightarrow> string \<Rightarrow> string" where
  "variation_at lowerTerm i substitute =
     substring lowerTerm 0 i @ substitute @ substring_from lowerTerm (i + 1)"

text \<open>The body of the inner loop: push the candidate unless it is the term or known.\<close>

definition push_variation :: "string \<Rightarrow> string \<Rightarrow> string list \<Rightarrow> string list" where
  "push_variation lowerTerm variation variations =
     (if variation \<noteq> lowerTerm \<and> variation \<notin> set variations
      then variations @ [variation] else variations)"

text \<open>
  The body of the outer loop. The key \<^verbatim>\<open>lowerTerm[i]\<close> is one character long, so it
  names no inherited property and the lookup is a lookup among the own properties.
\<close>

definition vary_position :: "string \<Rightarrow> nat \<Rightarrow> string list \<Rightarrow> string list" where
  "vary_position lowerTerm i variations =
     (case map_of substitutions (charAt lowerTerm i) of
        None \<Rightarrow> variations
      | Some subs \<Rightarrow>
          fold (\<lambda>substitute. push_variation lowerTerm (variation_at lowerTerm i substitute))
            subs variations)"

definition generateSearchVariations :: "string \<Rightarrow> string list" where
  "generateSearchVariations term =
     (let lowerTerm = toLowerCase term in
      fold (vary_position lowerTerm) [0..<length lowerTerm] [term])"

subsection \<open>levenshteinDistance\<close>

text \<open>First loop: \<^verbatim>\<open>matrix[i] = [i]\<close> for \<open>i = 0 .. str2.length\<close>.\<close>

definition init_rows :: "string \<Rightarrow> nat list list" where
  "init_rows str2 = map (\<lambda>i. [i]) [0..<Suc (length str2)]"

text \<open>Second loop: \<^verbatim>\<open>matrix[0][j] = j\<close> for \<open>j = 0 .. str1.length\<close>.\<close>

definition init_first_row :: "string \<Rightarrow> nat list list \<Rightarrow> nat list list" where
  "init_first_row str1 matrix =
     fold (\<lambda>j m. m[0 := js_put (m ! 0) j j]) [0..<Suc (length str1)] matrix"

text \<open>The value stored in \<^verbatim>\<open>matrix[i][j]\<close> by the body of the nested loop.\<close>

definition cell :: "string \<Rightarrow> string \<Rightarrow> nat list list \<Rightarrow> nat \<Rightarrow> nat \<Rightarrow> nat" where
  "cell str1 str2 m i j =
     (if charAt str2 (i - 1) = charAt str1 (j - 1) then m ! (i - 1) ! (j - 1)
      else min (m ! (i - 1) ! (j - 1) + 1)
             (min (m ! i ! (j - 1) + 1) (m ! (i - 1) ! j + 1)))"

definition fill_row :: "string \<Rightarrow> string \<Rightarrow> nat \<Rightarrow> nat list list \<Rightarrow> nat list list" where
  "fill_row str1 str2 i matrix =
     fold (\<lambda>j m. m[i := js_put (m ! i) j (cell str1 str2 m i j)])
       [1..<Suc (length str1)] matrix"

definition levenshteinDistance :: "string \<Rightarrow> string \<Rightarrow> nat" where
  "levenshteinDistance str1 str2 =
     (let matrix = init_first_row str1 (init_rows str2);
          matrix = fold (fill_row str1 str2) [1..<Suc (length str2)] matrix
      in matrix ! length str2 ! length str1)"

subsection \<open>calculateFuzzyScore\<close>

text \<open>The loop state is \<open>(matchCount, lastIndex)\<close>.\<close>

definition fuzzy_step :: "string \<Rightarrow> char \<Rightarrow> nat \<times> int \<Rightarrow> nat \<times> int" where
  "fuzzy_step text c st =
     (let (matchCount, lastIndex) = st;
          index = indexOf text [c] (lastIndex + 1)
      in if index > lastIndex then (matchCount + 1, index) else (matchCount, lastIndex))"

definition calculateFuzzyScore :: "string \<Rightarrow> string \<Rightarrow> jsnum" where
  "calculateFuzzyScore text query =
     (let (matchCount, lastIndex) = fold (fuzzy_step text) query (0, - 1)
      in js_div (of_nat matchCount) (of_nat (length query)))"

subsection \<open>calculateRelevanceScore\<close>

record movie =
  movie_id :: int
  title :: "string option"
  overview :: "string option"
  vote_average :: "rat option"
  vote_count :: "nat option"
  relevanceScore :: "jsnum option"

text \<open>
  The ratio the source computes twice under the names \<^verbatim>\<open>similarity\<close> and
  \<^verbatim>\<open>titleSimilarity\<close>: \<^verbatim>\<open>(maxLen - distance) / maxLen\<close>.
\<close>

definition similarity :: "string \<Rightarrow> string \<Rightarrow> jsnum" where
  "similarity a b =
     (let distance = levenshteinDistance a b;
          maxLen = max (length a) (length b)
      in js_div (of_nat maxLen - of_nat distance) (of_nat maxLen))"

definition word_step :: "string \<Rightarrow> string \<Rightarrow> jsnum \<Rightarrow> jsnum" where
  "word_step titleWord queryWord bestWordMatch =
     (let s = similarity titleWord queryWord in
      if js_gt s (Num (6 / 10)) then js_max bestWordMatch (js_mul s (Num 60))
      else bestWordMatch)"

definition bestWordMatch :: "string list \<Rightarrow> string list \<Rightarrow> jsnum" where
  "bestWordMatch titleWords queryWords =
     fold (\<lambda>titleWord. fold (word_step titleWord) queryWords) titleWords (Num 0)"

definition bonus :: "bool \<Rightarrow> rat \<Rightarrow> jsnum \<Rightarrow> jsnum" where
  "bonus c n score = (if c then js_add score (Num n) else score)"

definition score_title :: "string \<Rightarrow> string \<Rightarrow> string \<Rightarrow> rat \<Rightarrow> nat \<Rightarrow> jsnum" where
  "score_title titleLower overviewLower queryLower voteAverage voteCount =
     (let score = Num 0;
          score = bonus (titleLower = queryLower) 100 score;
          score = bonus (js_includes titleLower queryLower) 80 score;
          score = bonus (startsWith titleLower queryLower) 70 score;
          score = bonus (js_includes overviewLower queryLower) 30 score;
          score = js_add score
                    (bestWordMatch (split_space titleLower) (split_space queryLower));
          titleSimilarity = similarity titleLower queryLower;
          score = (if js_gt titleSimilarity (Num (5 / 10))
                   then js_add score (js_mul titleSimilarity (Num 40)) else score);
          score = js_add score (js_mul (calculateFuzzyScore titleLower queryLower) (Num 20));
          score = js_add score (js_mul (Num voteAverage) (Num 1));
          score = js_add score (js_min (js_div (of_nat voteCount) 1000) (Num 5))
      in score)"

text \<open>
  \<^verbatim>\<open>movie.title.toLowerCase()\<close> throws a TypeError when the title is absent; the other
  fields are read through \<^verbatim>\<open>|| ""\<close> and \<^verbatim>\<open>|| 0\<close>.
\<close>

definition calculateRelevanceScore :: "movie \<Rightarrow> string \<Rightarrow> error + jsnum" where
  "calculateRelevanceScore m query =
     (case title m of
        None \<Rightarrow> Inl TypeError
      | Some t \<Rightarrow>
          Inr (score_title (toLowerCase t)
                 (toLowerCase (case overview m of None \<Rightarrow> [] | Some ov \<Rightarrow> ov))
                 (toLowerCase query)
                 (case vote_average m of None \<Rightarrow> 0 | Some v \<Rightarrow> v)
                 (case vote_count m of None \<Rightarrow> 0 | Some c \<Rightarrow> c)))"

subsection \<open>fetchMovies\<close>

datatype request = SearchMovie string | DiscoverMovie

text \<open>
  A response body: \<^verbatim>\<open>response.json()\<close> throws on text that is not JSON; a body that
  parses is taken to be an object, in which \<^verbatim>\<open>data.results\<close> is a list or is absent.
\<close>

datatype body = Unparsable | Data "movie list option"

record response =
  ok :: bool
  body :: body

text \<open>A \<^verbatim>\<open>fetch\<close> promise rejects on a transport error, and resolves otherwise.\<close>

datatype fetch_outcome = Rejected | Resolved response

datatype settled = Fulfilled | Failed

text \<open>
  Lines of the console: the one the \<^verbatim>\<open>catch\<close> block of \<^verbatim>\<open>fetchMovies\<close> writes, and
  whatever the counter collaborator writes itself.
\<close>

datatype log_entry = ErrorFetchingMovies error | CounterLog string

record app_state =
  movieList :: "movie list"
  errorMessage :: string
  isLoading :: bool
  console :: "log_entry list"

text \<open>The array \<^verbatim>\<open>searchPromises\<close>, as the requests it dispatches, in order.\<close>

definition searchPromises :: "string \<Rightarrow> string list \<Rightarrow> request list" where
  "searchPromises processedQuery searchVariations =
     [SearchMovie processedQuery]
     @ map SearchMovie (slice searchVariations 1 4)
     @ (if js_includes processedQuery '' '' then map SearchMovie (split_space processedQuery)
        else [])
     @ [SearchMovie (substring processedQuery 0 3)]"

text \<open>
  The requests dispatched for a non-empty query. \<^verbatim>\<open>generateSearchVariations\<close> calls
  \<^verbatim>\<open>term.toLowerCase()\<close>, which throws a TypeError when the preprocessed term is not a
  string; nothing is dispatched then.
\<close>

definition dispatched :: "string \<Rightarrow> error + request list" where
  "dispatched query =
     (case preprocessSearchTerm query of
        JObject \<Rightarrow> Inl TypeError
      | JString processedQuery \<Rightarrow>
          Inr (searchPromises processedQuery (generateSearchVariations processedQuery)))"

text \<open>\<^verbatim>\<open>await Promise.all(...)\<close>: throws as soon as one promise rejects.\<close>

fun promise_all :: "fetch_outcome list \<Rightarrow> error + response list" where
  "promise_all [] = Inr []"
| "promise_all (Rejected # os) = Inl NetworkError"
| "promise_all (Resolved r # os) =
     (case promise_all os of Inl e \<Rightarrow> Inl e | Inr rs \<Rightarrow> Inr (r # rs))"

text \<open>The loop over the responses, with the accumulator \<^verbatim>\<open>allResults\<close>.\<close>

fun collect_results :: "movie list \<Rightarrow> response list \<Rightarrow> error + movie list" where
  "collect_results allResults [] = Inr allResults"
| "collect_results allResults (r # rs) =
     (if ok r then
        (case body r of
           Unparsable \<Rightarrow> Inl JsonError
         | Data None \<Rightarrow> collect_results allResults rs
         | Data (Some results) \<Rightarrow> collect_results (allResults @ results) rs)
      else collect_results allResults rs)"

text \<open>
  \<^verbatim>\<open>allResults.filter((movie, index, self) => index === self.findIndex((m) => m.id === movie.id))\<close>
\<close>

definition uniqueResults :: "movie list \<Rightarrow> movie list" where
  "uniqueResults allResults =
     map snd
       (filter (\<lambda>(index, m). int index = findIndex (\<lambda>m'. movie_id m' = movie_id m) allResults)
          (enumerate 0 allResults))"

text \<open>\<^verbatim>\<open>xs.map(f)\<close> for an \<open>f\<close> that may throw: the first exception ends the map.\<close>

fun map_throw :: "('a \<Rightarrow> error + 'b) \<Rightarrow> 'a list \<Rightarrow> error + 'b list" where
  "map_throw f [] = Inr []"
| "map_throw f (x # xs) =
     (case f x of
        Inl e \<Rightarrow> Inl e
      | Inr y \<Rightarrow> (case map_throw f xs of Inl e \<Rightarrow> Inl e | Inr ys \<Rightarrow> Inr (y # ys)))"

definition attach_score :: "string \<Rightarrow> movie \<Rightarrow> error + movie" where
  "attach_score query m =
     (case calculateRelevanceScore m query of
        Inl e \<Rightarrow> Inl e
      | Inr s \<Rightarrow> Inr (m\<lparr>relevanceScore := Some s\<rparr>))"

definition scoredResults :: "movie list \<Rightarrow> string \<Rightarrow> error + movie list" where
  "scoredResults unique query = map_throw (attach_score query) unique"

text \<open>Reading \<^verbatim>\<open>m.relevanceScore\<close> in arithmetic: an absent property counts as NaN.\<close>

definition score_of :: "movie \<Rightarrow> jsnum" where
  "score_of m = (case relevanceScore m of None \<Rightarrow> NaN | Some s \<Rightarrow> s)"

text \<open>The comparator \<^verbatim>\<open>(a, b) => b.relevanceScore - a.relevanceScore\<close>.\<close>

definition compare_score :: "movie \<Rightarrow> movie \<Rightarrow> jsnum" where
  "compare_score a b = js_sub (score_of b) (score_of a)"

text \<open>
  \<^verbatim>\<open>Array.prototype.sort\<close> is stable, and an element moves behind another one only when
  the comparator is positive on the pair. The model is the stable insertion sort.
\<close>

fun insert_sorted :: "('a \<Rightarrow> 'a \<Rightarrow> jsnum) \<Rightarrow> 'a \<Rightarrow> 'a list \<Rightarrow> 'a list" where
  "insert_sorted cmp x [] = [x]"
| "insert_sorted cmp x (y # ys) =
     (if js_gt (cmp x y) (Num 0) then y # insert_sorted cmp x ys else x # y # ys)"

definition js_sort :: "('a \<Rightarrow> 'a \<Rightarrow> jsnum) \<Rightarrow> 'a list \<Rightarrow> 'a list" where
  "js_sort cmp xs = foldr (insert_sorted cmp) xs []"

text \<open>
  The non-empty-query branch up to the value passed to \<^verbatim>\<open>setMovieList\<close>. The outcome of
  the \<open>i\<close>-th dispatched request is \<open>fetch i request\<close>.
\<close>

definition rankedResults :: "(nat \<Rightarrow> request \<Rightarrow> fetch_outcome) \<Rightarrow> string \<Rightarrow> error + movie list" where
  "rankedResults fetch query =
     (case dispatched query of
        Inl e \<Rightarrow> Inl e
      | Inr promises \<Rightarrow>
          (case promise_all (map (\<lambda>(i, r). fetch i r) (enumerate 0 promises)) of
             Inl e \<Rightarrow> Inl e
           | Inr responses \<Rightarrow>
               (case collect_results [] responses of
                  Inl e \<Rightarrow> Inl e
                | Inr allResults \<Rightarrow>
                    (case scoredResults (uniqueResults allResults) query of
                       Inl e \<Rightarrow> Inl e
                     | Inr scored \<Rightarrow> Inr (slice (js_sort compare_score scored) 0 20)))))"

text \<open>
  The \<^verbatim>\<open>try\<close> block: the state it leaves and the exception it ends with, if any. The call
  \<^verbatim>\<open>updateSearchCount(query, sortedResults[0])\<close> is awaited inside the block, so a promise
  that rejects is an exception of the block. The function \<^verbatim>\<open>updateSearchCount\<close> is imported
  from \<^verbatim>\<open>appwrite.js\<close>, which is not among the sources: the parameter \<open>counter\<close> stands
  for it and gives how the call settles and what it writes to the console.
\<close>

definition search_branch ::
  "(nat \<Rightarrow> request \<Rightarrow> fetch_outcome) \<Rightarrow> (string \<Rightarrow> movie \<Rightarrow> settled \<times> log_entry list)
   \<Rightarrow> string \<Rightarrow> app_state \<Rightarrow> app_state \<times> error option" where
  "search_branch fetch counter query st =
     (case rankedResults fetch query of
        Inl e \<Rightarrow> (st, Some e)
      | Inr sortedResults \<Rightarrow>
          (let st = st\<lparr>movieList := sortedResults\<rparr> in
           if length sortedResults > 0 then
             (case counter query (sortedResults ! 0) of
                (Fulfilled, logs) \<Rightarrow> (st\<lparr>console := console st @ logs\<rparr>, None)
              | (Failed, logs) \<Rightarrow> (st\<lparr>console := console st @ logs\<rparr>, Some CounterError))
           else (st, None)))"

definition discover_branch ::
  "(nat \<Rightarrow> request \<Rightarrow> fetch_outcome) \<Rightarrow> app_state \<Rightarrow> app_state \<times> error option" where
  "discover_branch fetch st =
     (case fetch 0 DiscoverMovie of
        Rejected \<Rightarrow> (st, Some NetworkError)
      | Resolved r \<Rightarrow>
          if \<not> ok r then (st, Some FailedToFetch)
          else (case body r of
                  Unparsable \<Rightarrow> (st, Some JsonError)
                | Data d \<Rightarrow>
                    (st\<lparr>movieList := (case d of None \<Rightarrow> [] | Some results \<Rightarrow> results)\<rparr>,
                     None)))"

definition fetchMovies ::
  "(nat \<Rightarrow> request \<Rightarrow> fetch_outcome) \<Rightarrow> (string \<Rightarrow> movie \<Rightarrow> settled \<times> log_entry list)
   \<Rightarrow> string \<Rightarrow> app_state \<Rightarrow> app_state" where
  "fetchMovies fetch counter query st =
     (let st = st\<lparr>isLoading := True, errorMessage := []\<rparr>;
          (st, thrown) = (if query \<noteq> [] then search_branch fetch counter query st
                          else discover_branch fetch st);
          st = (case thrown of
                  None \<Rightarrow> st
                | Some e \<Rightarrow>
                    st\<lparr>console := console st @ [ErrorFetchingMovies e],
                       errorMessage := ''Error fetching movies. Please try again later.''\<rparr>)
      in st\<lparr>isLoading := False\<rparr>)"

subsection \<open>Auxiliary definitions for the proofs\<close>

text \<open>The recurrence that the nested loop of \<^verbatim>\<open>levenshteinDistance\<close> tabulates.\<close>

fun lev_rec :: "string \<Rightarrow> string \<Rightarrow> nat \<Rightarrow> nat \<Rightarrow> nat" where
  "lev_rec a b 0 j = j"
| "lev_rec a b (Suc i) 0 = Suc i"
| "lev_rec a b (Suc i) (Suc j) =
     (if charAt b i = charAt a j then lev_rec a b i j
      else min (lev_rec a b i j + 1)
             (min (lev_rec a b (Suc i) j + 1) (lev_rec a b i (Suc j) + 1)))"

definition lev_row :: "string \<Rightarrow> string \<Rightarrow> nat \<Rightarrow> nat \<Rightarrow> nat list" where
  "lev_row a b i k = map (lev_rec a b i) [0..<Suc k]"

text \<open>The matrix once the rows up to \<open>r\<close> are filled.\<close>

definition rows_done :: "string \<Rightarrow> string \<Rightarrow> nat \<Rightarrow> nat list list" where
  "rows_done a b r =
     map (\<lambda>i. if i \<le> r then lev_row a b i (length a) else [i]) [0..<Suc (length b)]"

text \<open>
  The merger as the specification words it: stable deduplication by a key, every key
  kept at its first occurrence.
\<close>

fun first_seen :: "('a \<Rightarrow> 'k) \<Rightarrow> 'a list \<Rightarrow> 'a list" where
  "first_seen key [] = []"
| "first_seen key (x # xs) = x # first_seen key (filter (\<lambda>y. key y \<noteq> key x) xs)"

text \<open>
  The substitutes applicable at a position of the lowercased term, and the candidates
  they give, position by position, in the order of the table.
\<close>

definition applicable :: "string \<Rightarrow> nat \<Rightarrow> string list" where
  "applicable lowerTerm i =
     (case map_of substitutions (charAt lowerTerm i) of None \<Rightarrow> [] | Some subs \<Rightarrow> subs)"

definition candidates :: "string \<Rightarrow> string list" where
  "candidates lowerTerm =
     concat (map (\<lambda>i. map (variation_at lowerTerm i) (applicable lowerTerm i))
               [0..<length lowerTerm])"





text \<open>
  The items that one settled request contributes to the accumulator: the results of a
  successful response, and nothing for any other outcome.
\<close>

definition response_items :: "fetch_outcome \<Rightarrow> movie list" where
  "response_items x =
     (case x of
        Rejected \<Rightarrow> []
      | Resolved r \<Rightarrow>
          if ok r then (case body r of Data (Some results) \<Rightarrow> results | _ \<Rightarrow> []) else [])"

subsection \<open>Example inputs\<close>

definition ok_response :: "movie list \<Rightarrow> response" where
  "ok_response results = \<lparr>ok = True, body = Data (Some results)\<rparr>"

definition up_movie :: "int \<Rightarrow> string \<Rightarrow> movie" where
  "up_movie i t =
     \<lparr>movie_id = i, title = Some t, overview = None, vote_average = None,
        vote_count = None, relevanceScore = None\<rparr>"

definition untitled_movie :: movie where
  "untitled_movie =
     \<lparr>movie_id = 7, title = None, overview = Some ''A house and balloons'',
        vote_average = Some 8, vote_count = Some 1200, relevanceScore = None\<rparr>"

definition idle_state :: app_state where
  "idle_state = \<lparr>movieList = [], errorMessage = [], isLoading = False, console = []\<rparr>"

definition found_up :: "nat \<Rightarrow> request \<Rightarrow> fetch_outcome" where
  "found_up i r =
     Resolved \<lparr>ok = True,
        body = Data (Some [up_movie 1 ''Upstream'', up_movie 2 ''Up'', up_movie 1 ''Upstream''])\<rparr>"

definition all_rejected :: "nat \<Rightarrow> request \<Rightarrow> fetch_outcome" where
  "all_rejected i r = Rejected"

definition all_unavailable :: "nat \<Rightarrow> request \<Rightarrow> fetch_outcome" where
  "all_unavailable i r = Resolved \<lparr>ok = False, body = Unparsable\<rparr>"

definition quiet_counter :: "string \<Rightarrow> movie \<Rightarrow> settled \<times> log_entry list" where
  "quiet_counter q m = (Fulfilled, [])"


text \<open>A batch in which only the first request succeeds.\<close>

definition first_only :: "nat \<Rightarrow> request \<Rightarrow> fetch_outcome" where
  "first_only i r =
     (if i = 0 then Resolved \<lparr>ok = True, body = Data (Some [up_movie 2 ''Up''])\<rparr>
      else Resolved \<lparr>ok = False, body = Unparsable\<rparr>)"

section \<open>Properties\<close>

subsection \<open>Comparing numbers\<close>

lemma js_ge_Num: "js_ge (Num x) (Num y) \<longleftrightarrow> y \<le> x"
  by (auto simp add: js_ge_def)

subsection \<open>The Levenshtein matrix\<close>

lemma lev_row_Suc: "lev_row a b i (Suc k) = lev_row a b i k @ [lev_rec a b i (Suc k)]"
  by (simp add: lev_row_def)

lemma length_lev_row [simp]: "length (lev_row a b i k) = Suc k"
  by (simp add: lev_row_def)

lemma nth_lev_row: "j \<le> k \<Longrightarrow> lev_row a b i k ! j = lev_rec a b i j"
  unfolding lev_row_def by (metis add_0 le_imp_less_Suc nth_map_upt diff_zero)

lemma lev_rec_col0: "lev_rec a b i 0 = i"
  by (cases i) simp_all

lemma first_row_prefix:
  assumes "m ! 0 = [0]" "m \<noteq> []"
  shows "fold (\<lambda>j m. m[0 := js_put (m ! 0) j j]) [0..<Suc k] m = m[0 := lev_row a b 0 k]"
proof (induction k)
  case 0
  show ?case using assms by (simp add: js_put_def lev_row_def list_update_same_conv)
next
  case (Suc k)
  have "fold (\<lambda>j m. m[0 := js_put (m ! 0) j j]) [0..<Suc (Suc k)] m
        = (m[0 := lev_row a b 0 k])[0 := js_put ((m[0 := lev_row a b 0 k]) ! 0) (Suc k) (Suc k)]"
    using Suc by simp
  also have "\<dots> = m[0 := lev_row a b 0 (Suc k)]"
    using assms by (simp add: js_put_def lev_row_Suc)
  finally show ?case .
qed

lemma init_first_row_eq:
  "init_first_row a (init_rows b) = (init_rows b)[0 := lev_row a b 0 (length a)]"
  unfolding init_first_row_def
  by (rule first_row_prefix) (simp_all add: init_rows_def upt_rec)

lemma cell_eq:
  assumes "0 < i" "i < length m" "m ! (i - 1) = lev_row a b (i - 1) n"
    "m ! i = lev_row a b i k" "k < n"
  shows "cell a b m i (Suc k) = lev_rec a b i (Suc k)"
proof -
  obtain i' where i: "i = Suc i'" using assms(1) by (cases i) auto
  show ?thesis using assms unfolding i cell_def
    by (simp add: nth_lev_row)
qed

lemma fill_row_prefix:
  assumes "0 < i" "i < length m" "m ! (i - 1) = lev_row a b (i - 1) n" "m ! i = [i]"
  shows "k \<le> n \<Longrightarrow>
    fold (\<lambda>j m. m[i := js_put (m ! i) j (cell a b m i j)]) [1..<Suc k] m
      = m[i := lev_row a b i k]"
proof (induction k)
  case 0
  have "m[i := [i]] = m" using assms(4) list_update_id by metis
  then show ?case by (simp add: lev_row_def lev_rec_col0)
next
  case (Suc k)
  let ?m = "m[i := lev_row a b i k]"
  have prev: "?m ! (i - 1) = lev_row a b (i - 1) n" using assms by simp
  have cur: "?m ! i = lev_row a b i k" using assms by simp
  have c: "cell a b ?m i (Suc k) = lev_rec a b i (Suc k)"
    using cell_eq[OF assms(1) _ prev cur] assms(2) Suc.prems by simp
  have "fold (\<lambda>j m. m[i := js_put (m ! i) j (cell a b m i j)]) [1..<Suc (Suc k)] m
        = ?m[i := js_put (?m ! i) (Suc k) (cell a b ?m i (Suc k))]"
    using Suc by simp
  also have "\<dots> = m[i := lev_row a b i (Suc k)]"
    using assms(2) by (simp add: c js_put_def lev_row_Suc)
  finally show ?case .
qed

lemma rows_done_step:
  assumes "r < length b"
  shows "fill_row a b (Suc r) (rows_done a b r) = rows_done a b (Suc r)"
proof -
  let ?m = "rows_done a b r"
  have len: "Suc r < length ?m" using assms by (simp add: rows_done_def)
  have prev: "?m ! (Suc r - 1) = lev_row a b (Suc r - 1) (length a)"
    using assms by (simp add: rows_done_def del: upt_Suc)
  have cur: "?m ! Suc r = [Suc r]"
    using assms by (simp add: rows_done_def del: upt_Suc)
  have "fill_row a b (Suc r) ?m = ?m[Suc r := lev_row a b (Suc r) (length a)]"
    unfolding fill_row_def
    using fill_row_prefix[OF _ len prev cur, of "length a"] by simp
  also have "\<dots> = rows_done a b (Suc r)"
    using assms
    by (auto simp add: rows_done_def list_eq_iff_nth_eq nth_list_update simp del: upt_Suc)
  finally show ?thesis .
qed

lemma rows_done_fold:
  "r \<le> length b \<Longrightarrow> fold (fill_row a b) [1..<Suc r] (rows_done a b 0) = rows_done a b r"
proof (induction r)
  case 0
  show ?case by simp
next
  case (Suc r)
  then show ?case using rows_done_step[of r b a] by simp
qed

lemma rows_done_0: "init_first_row a (init_rows b) = rows_done a b 0"
  unfolding init_first_row_eq
  by (auto simp add: rows_done_def init_rows_def list_eq_iff_nth_eq nth_list_update
        simp del: upt_Suc)

lemma levenshteinDistance_rec:
  "levenshteinDistance a b = lev_rec a b (length b) (length a)"
proof -
  have "levenshteinDistance a b = rows_done a b (length b) ! length b ! length a"
    using rows_done_fold[of "length b" b a]
    by (simp add: levenshteinDistance_def Let_def rows_done_0 del: upt_Suc)
  also have "\<dots> = lev_rec a b (length b) (length a)"
    by (simp add: rows_done_def nth_lev_row del: upt_Suc)
  finally show ?thesis .
qed

lemma lev_rec_sym: "lev_rec a b i j = lev_rec b a j i"
proof (induction a b i j rule: lev_rec.induct)
  case (1 a b j)
  show ?case by (simp add: lev_rec_col0)
next
  case (2 a b i)
  show ?case by simp
next
  case (3 a b i j)
  then show ?case by (auto simp add: min.commute min.left_commute)
qed

lemma lev_rec_diag: "i \<le> length s \<Longrightarrow> lev_rec s s i i = 0"
  by (induction i) simp_all

lemma lev_rec_le_max: "lev_rec a b i j \<le> max i j"
proof (induction a b i j rule: lev_rec.induct)
  case (3 a b i j)
  then show ?case by (auto simp add: min_def max_def split: if_splits)
qed simp_all

lemma levenshteinDistance_same: "levenshteinDistance s s = 0"
  by (simp add: levenshteinDistance_rec lev_rec_diag)

lemma levenshteinDistance_le_max: "levenshteinDistance a b \<le> max (length a) (length b)"
  using lev_rec_le_max[of a b "length b" "length a"]
  by (simp add: levenshteinDistance_rec max.commute)

text \<open>
  C10. The Levenshtein distance of a string to itself is \<open>0\<close>, and the distance is
  symmetric in its two arguments.
\<close>

text \<open>
  C10. The Levenshtein distance of a string to itself is \<open>0\<close>, and the distance is
  symmetric in its two arguments.
\<close>

theorem levenshtein_identity_symmetry:
  "levenshteinDistance s s = 0 \<and> levenshteinDistance a b = levenshteinDistance b a"
  using lev_rec_sym[of a b "length b" "length a"]
  by (simp add: levenshteinDistance_rec lev_rec_diag)

subsection \<open>The similarity ratio\<close>

lemma similarity_empty: "similarity [] [] = NaN"
  by (simp add: similarity_def Let_def js_div_def levenshteinDistance_same)

lemma similarity_formula:
  assumes "a \<noteq> [] \<or> b \<noteq> []"
  shows "similarity a b
          = Num ((of_nat (max (length a) (length b)) - of_nat (levenshteinDistance a b))
                 / of_nat (max (length a) (length b)))"
proof -
  let ?n = "max (length a) (length b)"
  have pos: "0 < ?n" using assms by (auto simp add: less_max_iff_disj)
  have "(0::rat) < of_nat ?n" using pos by (simp only: of_nat_0_less_iff)
  then have nz: "(of_nat ?n :: rat) \<noteq> 0" by (metis order_less_irrefl)
  show ?thesis
    unfolding similarity_def Let_def js_div_def by (simp only: nz if_False)
qed

lemma similarity_Num:
  assumes "a \<noteq> [] \<or> b \<noteq> []"
  shows "\<exists>r. similarity a b = Num r \<and> 0 \<le> r \<and> r \<le> 1"
proof -
  let ?n = "max (length a) (length b)"
  let ?d = "levenshteinDistance a b"
  have pos: "0 < ?n" using assms by (auto simp add: less_max_iff_disj)
  have le: "?d \<le> ?n" by (rule levenshteinDistance_le_max)
  have "(0::rat) \<le> (of_nat ?n - of_nat ?d) / of_nat ?n"
    using le pos by (simp add: divide_nonneg_pos)
  moreover have "(of_nat ?n - of_nat ?d) / of_nat ?n \<le> (1::rat)"
    using pos by (simp add: divide_le_eq)
  ultimately show ?thesis using similarity_formula[OF assms] by blast
qed

lemma similarity_same:
  assumes "s \<noteq> []"
  shows "similarity s s = Num 1"
  using assms by (simp add: similarity_def Let_def js_div_def levenshteinDistance_same)

lemma similarity_cases:
  "similarity a b = NaN \<or> (\<exists>r. similarity a b = Num r \<and> 0 \<le> r \<and> r \<le> 1)"
  using similarity_empty similarity_Num by (cases "a = [] \<and> b = []") auto

text \<open>
  The ratio of the empty pair is \<open>0 / 0\<close>, which is NaN and not \<open>1\<close>.
\<close>

theorem similarity_empty_pair_counterexample:
  "similarity [] [] = NaN \<and> similarity [] [] \<noteq> Num 1"
  by (simp add: similarity_empty)

text \<open>
  C7, as amended. The similarity ratio \<open>(maxLen - distance) / maxLen\<close> is NaN exactly
  on the empty pair, where the division is \<open>0 / 0\<close>. On every other pair it is the
  stated quotient, a number between \<open>0\<close> and \<open>1\<close>. The NaN of the empty pair passes
  neither threshold test of the scorer (\<open>> 0.6\<close>, \<open>> 0.5\<close>), so the pair adds nothing to
  a score: an empty title word against an empty query word leaves the best word match as
  it was, and a title and a query made of one empty word each have the best word match
  \<open>0\<close>.
\<close>

theorem similarity_ratio:
  "(similarity a b = NaN \<longleftrightarrow> a = [] \<and> b = [])
   \<and> (a \<noteq> [] \<or> b \<noteq> [] \<longrightarrow>
        similarity a b
          = Num ((of_nat (max (length a) (length b)) - of_nat (levenshteinDistance a b))
                 / of_nat (max (length a) (length b)))
        \<and> (\<exists>r. similarity a b = Num r \<and> 0 \<le> r \<and> r \<le> 1))
   \<and> \<not> js_gt (similarity [] []) (Num (6 / 10))
   \<and> \<not> js_gt (similarity [] []) (Num (5 / 10))
   \<and> word_step [] [] best = best
   \<and> bestWordMatch (split_space []) (split_space []) = Num 0"
proof -
  have n: "a \<noteq> [] \<or> b \<noteq> [] \<Longrightarrow> \<exists>r. similarity a b = Num r \<and> 0 \<le> r \<and> r \<le> 1"
    by (rule similarity_Num)
  have f: "a \<noteq> [] \<or> b \<noteq> [] \<Longrightarrow> similarity a b
          = Num ((of_nat (max (length a) (length b)) - of_nat (levenshteinDistance a b))
                 / of_nat (max (length a) (length b)))"
    by (rule similarity_formula)
  have "similarity a b = NaN \<longleftrightarrow> a = [] \<and> b = []"
  proof (cases "a = [] \<and> b = []")
    case True
    then show ?thesis by (simp add: similarity_empty)
  next
    case False
    then have "a \<noteq> [] \<or> b \<noteq> []" by simp
    from similarity_Num[OF this] obtain r where "similarity a b = Num r" by blast
    then show ?thesis using False by simp
  qed
  then show ?thesis
    using n f by (simp add: similarity_empty word_step_def bestWordMatch_def)
qed

theorem similarity_ratio_witness:
  "similarity ''kitten'' ''sitting'' = Num (4 / 7)"
proof -
  have "levenshteinDistance ''kitten'' ''sitting'' = 3" by code_simp
  then show ?thesis using similarity_ratio[of "''kitten''" "''sitting''"] by simp
qed

subsection \<open>The relevance score\<close>

lemma word_step_nonneg:
  assumes "best = Num r" "0 \<le> r"
  shows "\<exists>r'. word_step tw qw best = Num r' \<and> r \<le> r'"
  using similarity_cases[of tw qw] assms
  by (auto simp add: word_step_def Let_def js_max_def)

lemma fold_word_step_nonneg:
  "best = Num r \<Longrightarrow> 0 \<le> r \<Longrightarrow> \<exists>r'. fold (word_step tw) qws best = Num r' \<and> r \<le> r'"
proof (induction qws arbitrary: best r)
  case Nil
  then show ?case by simp
next
  case (Cons qw qws)
  obtain r1 where r1: "word_step tw qw best = Num r1" "r \<le> r1"
    using word_step_nonneg[OF Cons.prems] by blast
  have "0 \<le> r1" using r1(2) Cons.prems(2) by simp
  from Cons.IH[OF r1(1) this] obtain r' where "fold (word_step tw) qws (word_step tw qw best) = Num r'" "r1 \<le> r'"
    by blast
  then show ?case using r1(2) by auto
qed

lemma fold_fold_word_step_nonneg:
  "best = Num r \<Longrightarrow> 0 \<le> r \<Longrightarrow>
   \<exists>r'. fold (\<lambda>tw. fold (word_step tw) qws) tws best = Num r' \<and> r \<le> r'"
proof (induction tws arbitrary: best r)
  case Nil
  then show ?case by simp
next
  case (Cons tw tws)
  obtain r1 where r1: "fold (word_step tw) qws best = Num r1" "r \<le> r1"
    using fold_word_step_nonneg[OF Cons.prems] by blast
  have "0 \<le> r1" using r1(2) Cons.prems(2) by simp
  from Cons.IH[OF r1(1) this] obtain r' where
    "fold (\<lambda>tw. fold (word_step tw) qws) tws (fold (word_step tw) qws best) = Num r'" "r1 \<le> r'"
    by blast
  then show ?case using r1(2) by auto
qed

lemma bestWordMatch_nonneg: "\<exists>r. bestWordMatch tws qws = Num r \<and> 0 \<le> r"
  unfolding bestWordMatch_def using fold_fold_word_step_nonneg[of "Num 0" 0] by simp

lemma calculateFuzzyScore_nonneg:
  assumes "query \<noteq> []"
  shows "\<exists>r. calculateFuzzyScore t query = Num r \<and> 0 \<le> r"
  using assms by (simp add: calculateFuzzyScore_def js_div_def split: prod.splits)

lemma vote_count_boost: "\<exists>r. js_min (js_div (of_nat c) 1000) (Num 5) = Num r \<and> 0 \<le> r"
proof -
  let ?q = "of_nat c / (1000 :: rat)"
  have d: "js_div (of_nat c) 1000 = Num ?q"
    by (simp add: js_div_def)
  have q: "0 \<le> ?q" by simp
  show ?thesis
  proof (cases "5 < ?q")
    case True
    then have "js_min (js_div (of_nat c) 1000) (Num 5) = Num 5"
      unfolding d js_min_def by simp
    then show ?thesis by simp
  next
    case False
    then have "js_min (js_div (of_nat c) 1000) (Num 5) = Num ?q"
      unfolding d js_min_def by simp
    then show ?thesis using q by blast
  qed
qed

lemma score_title_Num:
  assumes "ql \<noteq> []"
  shows "\<exists>r. score_title tlo ol ql va vc = Num r"
proof -
  obtain w where w: "bestWordMatch (split_space tlo) (split_space ql) = Num w"
    using bestWordMatch_nonneg by blast
  obtain s where s: "similarity tlo ql = Num s"
    using similarity_Num[of tlo ql] assms by blast
  obtain f where f: "calculateFuzzyScore tlo ql = Num f"
    using calculateFuzzyScore_nonneg[OF assms] by blast
  obtain c where c: "js_min (js_div (of_nat vc) 1000) (Num 5) = Num c"
    using vote_count_boost by blast
  show ?thesis
    by (simp add: score_title_def Let_def bonus_def w s f c)
qed

lemma score_title_exact:
  assumes "ql \<noteq> []" "0 \<le> va"
  shows "\<exists>r. score_title ql ol ql va vc = Num r \<and> 100 \<le> r"
proof -
  obtain w where w: "bestWordMatch (split_space ql) (split_space ql) = Num w" "0 \<le> w"
    using bestWordMatch_nonneg by blast
  have s: "similarity ql ql = Num 1" using assms(1) by (rule similarity_same)
  obtain f where f: "calculateFuzzyScore ql ql = Num f" "0 \<le> f"
    using calculateFuzzyScore_nonneg[OF assms(1)] by blast
  obtain c where c: "js_min (js_div (of_nat vc) 1000) (Num 5) = Num c" "0 \<le> c"
    using vote_count_boost by blast
  show ?thesis using assms(2) w(2) f(2) c(2)
    by (simp add: score_title_def Let_def bonus_def w(1) s f(1) c(1))
qed

lemma toLowerCase_Nil_iff: "toLowerCase s = [] \<longleftrightarrow> s = []"
  by (simp add: toLowerCase_def)

text \<open>
  With the empty query and an empty title the fuzzy score is \<open>0 / 0\<close> and the whole
  score is NaN, which is not \<open>\<ge> 100\<close>.
\<close>

theorem empty_query_score_counterexample:
  "toLowerCase '''' = toLowerCase ''''
   \<and> calculateRelevanceScore (up_movie 1 '''') '''' = Inr NaN
   \<and> \<not> js_ge NaN (Num 100)"
  by (simp add: js_ge_def) code_simp

text \<open>
  C5, as amended. For every non-empty query and every catalog item whose title equals
  the query up to letter case and whose average rating, when present, is not negative,
  the score is a number and it is at least \<open>100\<close>.
\<close>

theorem exact_title_match_floor:
  assumes "title m = Some t" and "toLowerCase t = toLowerCase query" and "query \<noteq> []"
    and "\<forall>v. vote_average m = Some v \<longrightarrow> 0 \<le> v"
  shows "\<exists>r. calculateRelevanceScore m query = Inr (Num r) \<and> 100 \<le> r
           \<and> js_ge (Num r) (Num 100)"
proof -
  have ql: "toLowerCase query \<noteq> []" using assms(3) by (simp add: toLowerCase_Nil_iff)
  have va: "0 \<le> (case vote_average m of None \<Rightarrow> 0 | Some v \<Rightarrow> v)"
    using assms(4) by (cases "vote_average m") auto
  obtain r where "score_title (toLowerCase query)
        (toLowerCase (case overview m of None \<Rightarrow> [] | Some ov \<Rightarrow> ov)) (toLowerCase query)
        (case vote_average m of None \<Rightarrow> 0 | Some v \<Rightarrow> v)
        (case vote_count m of None \<Rightarrow> 0 | Some c \<Rightarrow> c) = Num r" "100 \<le> r"
    using score_title_exact[OF ql va] by blast
  then show ?thesis
    by (simp add: calculateRelevanceScore_def assms(1,2) js_ge_Num)
qed

theorem exact_title_match_floor_witness:
  "calculateRelevanceScore (up_movie 2 ''Up'') ''up'' = Inr (Num 370) \<and> js_ge (Num 370) (Num 100)"
proof -
  have t: "title (up_movie 2 ''Up'') = Some ''Up''" by (simp add: up_movie_def)
  have l: "toLowerCase ''Up'' = toLowerCase ''up''" by code_simp
  have q: "''up'' \<noteq> []" by simp
  have v: "\<forall>v. vote_average (up_movie 2 ''Up'') = Some v \<longrightarrow> 0 \<le> v" by (simp add: up_movie_def)
  have e: "calculateRelevanceScore (up_movie 2 ''Up'') ''up'' = Inr (Num 370)" by code_simp
  show ?thesis using exact_title_match_floor[OF t l q v] e by simp
qed

text \<open>
  An item without a title makes the scorer throw.
\<close>

theorem absent_title_counterexample:
  "calculateRelevanceScore untitled_movie ''up'' = Inl TypeError"
  by (simp add: calculateRelevanceScore_def untitled_movie_def)

text \<open>
  C8, as amended. For every catalog item whose title is present the scorer returns a
  value and throws nothing; an absent overview counts as the empty string and an absent
  rating or vote count as \<open>0\<close>; for a non-empty query the value is a finite number.
\<close>

theorem score_total_with_title:
  assumes "title m = Some t"
  shows "(\<exists>s. calculateRelevanceScore m query = Inr s)
    \<and> calculateRelevanceScore m query
        = calculateRelevanceScore
            (m\<lparr>overview := Some (case overview m of None \<Rightarrow> [] | Some ov \<Rightarrow> ov),
               vote_average := Some (case vote_average m of None \<Rightarrow> 0 | Some v \<Rightarrow> v),
               vote_count := Some (case vote_count m of None \<Rightarrow> 0 | Some c \<Rightarrow> c)\<rparr>) query
    \<and> (query \<noteq> [] \<longrightarrow> (\<exists>r. calculateRelevanceScore m query = Inr (Num r)))"
proof -
  have "query \<noteq> [] \<Longrightarrow> \<exists>r. calculateRelevanceScore m query = Inr (Num r)"
    using score_title_Num[of "toLowerCase query"]
    by (simp add: calculateRelevanceScore_def assms toLowerCase_Nil_iff)
  then show ?thesis by (auto simp add: calculateRelevanceScore_def assms)
qed

theorem score_total_with_title_witness:
  "calculateRelevanceScore (up_movie 2 ''Up'') ''up''
     = calculateRelevanceScore
         ((up_movie 2 ''Up'')\<lparr>overview := Some [], vote_average := Some 0, vote_count := Some 0\<rparr>)
         ''up''"
proof -
  have t: "title (up_movie 2 ''Up'') = Some ''Up''" by (simp add: up_movie_def)
  show ?thesis using score_total_with_title[OF t, of "''up''"] by (simp add: up_movie_def)
qed

subsection \<open>Deduplication\<close>

lemma findIndex_from_range: "findIndex_from p xs k = - 1 \<or> int k \<le> findIndex_from p xs k"
  by (induction xs arbitrary: k) (auto, force)

lemma findIndex_from_append:
  "findIndex_from p (pre @ x # xs) k = int (k + length pre)
     \<longleftrightarrow> (\<forall>y \<in> set pre. \<not> p y) \<and> p x"
proof (induction pre arbitrary: k)
  case Nil
  show ?case using findIndex_from_range[of p xs "Suc k"] by auto
next
  case (Cons y pre)
  show ?case using Cons.IH[of "Suc k"] by auto
qed

lemma findIndex_at:
  "findIndex p (pre @ x # xs) = int (length pre) \<longleftrightarrow> (\<forall>y \<in> set pre. \<not> p y) \<and> p x"
  unfolding findIndex_def using findIndex_from_append[of p pre x xs 0] by simp

lemma filter_first_index:
  "map snd (filter (\<lambda>(index, m). int index = findIndex (\<lambda>m'. key m' = key m) (pre @ xs))
              (enumerate (length pre) xs))
   = first_seen key (filter (\<lambda>m. key m \<notin> key ` set pre) xs)"
proof (induction xs arbitrary: pre)
  case Nil
  show ?case by simp
next
  case (Cons x xs)
  have ih: "map snd (filter (\<lambda>(index, m). int index = findIndex (\<lambda>m'. key m' = key m) (pre @ x # xs))
              (enumerate (Suc (length pre)) xs))
        = first_seen key (filter (\<lambda>m. key m \<notin> key ` set (pre @ [x])) xs)"
    using Cons.IH[of "pre @ [x]"] by simp
  have img: "key x \<in> key ` set pre \<longleftrightarrow> (\<exists>y \<in> set pre. key y = key x)"
    unfolding image_iff by (rule bex_cong[OF refl]) (rule eq_commute)
  have here: "int (length pre) = findIndex (\<lambda>m'. key m' = key x) (pre @ x # xs)
        \<longleftrightarrow> key x \<notin> key ` set pre"
    using findIndex_at[of "\<lambda>m'. key m' = key x" pre x xs] img by metis
  have flt: "filter (\<lambda>m. key m \<notin> key ` set (pre @ [x])) xs
        = filter (\<lambda>y. key y \<noteq> key x) (filter (\<lambda>m. key m \<notin> key ` set pre) xs)"
    by (auto intro: filter_cong)
  show ?case
  proof (cases "key x \<in> key ` set pre")
    case True
    then have "filter (\<lambda>m. key m \<notin> key ` set (pre @ [x])) xs
        = filter (\<lambda>m. key m \<notin> key ` set pre) xs"
      by (auto intro: filter_cong)
    then show ?thesis using True here ih by simp
  next
    case False
    then show ?thesis using here ih flt by simp
  qed
qed

lemma uniqueResults_first_seen: "uniqueResults xs = first_seen movie_id xs"
  unfolding uniqueResults_def using filter_first_index[of movie_id "[]" xs] by simp

lemma set_first_seen_subset: "set (first_seen key xs) \<subseteq> set xs"
  by (induction key xs rule: first_seen.induct) auto

lemma key_set_first_seen: "key ` set (first_seen key xs) = key ` set xs"
proof (induction key xs rule: first_seen.induct)
  case (1 key)
  show ?case by simp
next
  case (2 key x xs)
  then show ?case by auto
qed

lemma distinct_first_seen: "distinct (map key (first_seen key xs))"
proof (induction key xs rule: first_seen.induct)
  case (1 key)
  show ?case by simp
next
  case (2 key x xs)
  have "key x \<notin> key ` set (first_seen key (filter (\<lambda>y. key y \<noteq> key x) xs))"
    unfolding key_set_first_seen by auto
  then show ?case using 2 by simp
qed

lemma subseq_first_seen: "subseq (first_seen key xs) xs"
proof (induction key xs rule: first_seen.induct)
  case (1 key)
  show ?case by simp
next
  case (2 key x xs)
  have b: "subseq (filter (\<lambda>y. key y \<noteq> key x) xs) xs" by simp
  have "subseq (first_seen key (filter (\<lambda>y. key y \<noteq> key x) xs)) xs"
    by (rule subseq_order.order_trans[OF 2 b])
  then show ?case by simp
qed

lemma find_first_seen:
  "m \<in> set (first_seen key xs) \<Longrightarrow> find (\<lambda>x. key x = key m) xs = Some m"
proof (induction key xs rule: first_seen.induct)
  case (1 key)
  then show ?case by simp
next
  case (2 key x xs)
  show ?case
  proof (cases "m = x")
    case True
    then show ?thesis by simp
  next
    case False
    then have mem: "m \<in> set (first_seen key (filter (\<lambda>y. key y \<noteq> key x) xs))"
      using "2.prems" by simp
    then have "m \<in> set (filter (\<lambda>y. key y \<noteq> key x) xs)"
      using set_first_seen_subset by fastforce
    then have ne: "key m \<noteq> key x" by simp
    have "find (\<lambda>y. key y = key m) (filter (\<lambda>y. key y \<noteq> key x) xs) = Some m"
      using "2.IH" mem by simp
    moreover have "find (\<lambda>y. key y = key m) (filter (\<lambda>y. key y \<noteq> key x) xs)
        = find (\<lambda>y. key y = key m) xs"
      using ne by (induction xs) auto
    ultimately show ?thesis using ne by auto
  qed
qed

lemma collect_results_ok:
  "collect_results acc (map ok_response rs) = Inr (acc @ concat rs)"
  by (induction rs arbitrary: acc) (simp_all add: ok_response_def)

text \<open>
  C4. The accumulator of successful responses is their concatenation. The deduplicated
  list holds every identifier at most once, holds exactly the identifiers of the
  accumulator, keeps for each identifier the first item that carries it, and keeps the
  order of the accumulator.
\<close>

theorem merged_results_unique_first_seen:
  "collect_results [] (map ok_response rs) = Inr (concat rs)
   \<and> uniqueResults allResults = first_seen movie_id allResults
   \<and> distinct (map movie_id (uniqueResults allResults))
   \<and> (\<forall>m \<in> set (uniqueResults allResults).
         find (\<lambda>x. movie_id x = movie_id m) allResults = Some m)
   \<and> movie_id ` set (uniqueResults allResults) = movie_id ` set allResults
   \<and> subseq (uniqueResults allResults) allResults"
  using collect_results_ok[of "[]" rs] find_first_seen[of _ movie_id allResults]
  by (simp add: uniqueResults_first_seen distinct_first_seen key_set_first_seen
        subseq_first_seen)

theorem merged_results_unique_first_seen_witness:
  "uniqueResults (concat [[up_movie 42 ''Up'', up_movie 5 ''Cars''], [up_movie 42 ''Up again'']])
     = [up_movie 42 ''Up'', up_movie 5 ''Cars'']
   \<and> find (\<lambda>x. movie_id x = 42)
        (concat [[up_movie 42 ''Up'', up_movie 5 ''Cars''], [up_movie 42 ''Up again'']])
     = Some (up_movie 42 ''Up'')"
proof -
  let ?all = "concat [[up_movie 42 ''Up'', up_movie 5 ''Cars''], [up_movie 42 ''Up again'']]"
  have u: "uniqueResults ?all = [up_movie 42 ''Up'', up_movie 5 ''Cars'']"
    using merged_results_unique_first_seen[of "[]" ?all] by (simp add: up_movie_def)
  have "up_movie 42 ''Up'' \<in> set (uniqueResults ?all)" unfolding u by simp
  then have "find (\<lambda>x. movie_id x = movie_id (up_movie 42 ''Up'')) ?all = Some (up_movie 42 ''Up'')"
    using merged_results_unique_first_seen[of "[]" ?all] by blast
  then show ?thesis using u by (simp add: up_movie_def)
qed

subsection \<open>Spelling variations\<close>

lemma fold_push_variation:
  "fold (push_variation lt) cs acc
     = acc @ first_seen (\<lambda>c. c) (filter (\<lambda>c. c \<noteq> lt \<and> c \<notin> set acc) cs)"
proof (induction cs arbitrary: acc)
  case Nil
  show ?case by simp
next
  case (Cons c cs)
  show ?case
  proof (cases "c \<noteq> lt \<and> c \<notin> set acc")
    case True
    have flt: "filter (\<lambda>d. d \<noteq> lt \<and> d \<notin> set (acc @ [c])) cs
        = filter (\<lambda>d. d \<noteq> c) (filter (\<lambda>d. d \<noteq> lt \<and> d \<notin> set acc) cs)"
      by (auto intro: filter_cong)
    have "fold (push_variation lt) (c # cs) acc = fold (push_variation lt) cs (acc @ [c])"
      using True by (simp add: push_variation_def)
    also have "\<dots> = (acc @ [c]) @ first_seen (\<lambda>c. c)
        (filter (\<lambda>d. d \<noteq> c) (filter (\<lambda>d. d \<noteq> lt \<and> d \<notin> set acc) cs))"
      unfolding Cons.IH[of "acc @ [c]"] flt ..
    also have "\<dots> = acc @ first_seen (\<lambda>c. c) (c # filter (\<lambda>d. d \<noteq> lt \<and> d \<notin> set acc) cs)"
      by (simp only: first_seen.simps append_assoc append_Cons append_Nil)
    also have "\<dots> = acc @ first_seen (\<lambda>c. c) (filter (\<lambda>d. d \<noteq> lt \<and> d \<notin> set acc) (c # cs))"
      using True by simp
    finally show ?thesis .
  next
    case False
    then show ?thesis using Cons.IH[of acc]
      by (auto simp add: push_variation_def)
  qed
qed

lemma vary_position_fold:
  "vary_position lt i vs
     = fold (push_variation lt) (map (variation_at lt i) (applicable lt i)) vs"
  by (simp add: vary_position_def applicable_def fold_map comp_def split: option.splits)

lemma fold_vary_position:
  "fold (vary_position lt) is vs
     = fold (push_variation lt)
         (concat (map (\<lambda>i. map (variation_at lt i) (applicable lt i)) is)) vs"
  by (induction "is" arbitrary: vs) (simp_all add: vary_position_fold)

lemma generateSearchVariations_eq:
  "generateSearchVariations term
     = term # first_seen (\<lambda>c. c)
         (filter (\<lambda>c. c \<noteq> toLowerCase term \<and> c \<noteq> term) (candidates (toLowerCase term)))"
  by (simp add: generateSearchVariations_def Let_def fold_vary_position fold_push_variation
        candidates_def)

lemma set_candidates:
  "set (candidates lt)
     = {take i lt @ s @ drop (Suc i) lt | i s.
          i < length lt \<and> (\<exists>subs. map_of substitutions [lt ! i] = Some subs \<and> s \<in> set subs)}"
proof -
  have "set (map (variation_at lt i) (applicable lt i))
      = {take i lt @ s @ drop (Suc i) lt | s.
           \<exists>subs. map_of substitutions [lt ! i] = Some subs \<and> s \<in> set subs}"
    if "i < length lt" for i
    using that
    by (cases "map_of substitutions [lt ! i]")
       (auto simp add: applicable_def variation_at_def substring_def substring_from_def
          charAt_def)
  note per = this
  show ?thesis
  proof (rule set_eqI)
    fix x
    define f where "f i = map (variation_at lt i) (applicable lt i)" for i
    have "f = (\<lambda>i. map (variation_at lt i) (applicable lt i))"
      by (rule ext) (simp add: f_def)
    then have "candidates lt = concat (map f [0..<length lt])"
      by (simp add: candidates_def)
    then have "x \<in> set (candidates lt) \<longleftrightarrow> (\<exists>i<length lt. x \<in> set (f i))"
      by auto
    then have "x \<in> set (candidates lt)
        \<longleftrightarrow> (\<exists>i<length lt. x \<in> set (map (variation_at lt i) (applicable lt i)))"
      by (simp only: f_def)
    also have "\<dots> \<longleftrightarrow> (\<exists>i<length lt. x \<in> {take i lt @ s @ drop (Suc i) lt | s.
           \<exists>subs. map_of substitutions [lt ! i] = Some subs \<and> s \<in> set subs})"
      using per by blast
    also have "\<dots> \<longleftrightarrow> x \<in> {take i lt @ s @ drop (Suc i) lt | i s.
          i < length lt \<and> (\<exists>subs. map_of substitutions [lt ! i] = Some subs \<and> s \<in> set subs)}"
      by blast
    finally show "x \<in> set (candidates lt)
        \<longleftrightarrow> x \<in> {take i lt @ s @ drop (Suc i) lt | i s.
          i < length lt \<and> (\<exists>subs. map_of substitutions [lt ! i] = Some subs \<and> s \<in> set subs)}" .
  qed
qed

lemma distinct_generateSearchVariations: "distinct (generateSearchVariations term)"
proof -
  let ?rest = "first_seen (\<lambda>c. c)
         (filter (\<lambda>c. c \<noteq> toLowerCase term \<and> c \<noteq> term) (candidates (toLowerCase term)))"
  have "distinct (map (\<lambda>c. c) ?rest)" by (rule distinct_first_seen)
  moreover have "term \<notin> set ?rest" using set_first_seen_subset[of "\<lambda>c. c"] by fastforce
  ultimately show ?thesis by (simp add: generateSearchVariations_eq)
qed

text \<open>
  What the loops compute. The variations start with the term itself. They continue with the candidates of
  the lowercased term, position by position and substitute by substitute, each candidate
  being the lowercased term with the one position replaced by a substitute that the
  table lists for the character at that position. A candidate equal to the lowercased
  term or produced before is skipped, so the list has no duplicates and keeps the order
  of first appearance.
\<close>

lemma variations_first_seen:
  "generateSearchVariations term ! 0 = term
   \<and> generateSearchVariations term
       = term # first_seen (\<lambda>c. c)
           (filter (\<lambda>c. c \<noteq> toLowerCase term \<and> c \<noteq> term) (candidates (toLowerCase term)))
   \<and> distinct (generateSearchVariations term)
   \<and> set (candidates (toLowerCase term))
       = {take i (toLowerCase term) @ s @ drop (Suc i) (toLowerCase term) | i s.
            i < length (toLowerCase term)
            \<and> (\<exists>subs. map_of substitutions [toLowerCase term ! i] = Some subs \<and> s \<in> set subs)}
   \<and> set (generateSearchVariations term)
       = insert term {c \<in> set (candidates (toLowerCase term)). c \<noteq> toLowerCase term}"
proof -
  have s: "set (first_seen (\<lambda>c. c) xs) = set xs" for xs :: "string list"
    using key_set_first_seen[of "\<lambda>c. c" xs] by simp
  have "set (generateSearchVariations term)
       = insert term {c \<in> set (candidates (toLowerCase term)). c \<noteq> toLowerCase term}"
    unfolding generateSearchVariations_eq by (auto simp add: s)
  then show ?thesis
    using distinct_generateSearchVariations[of "term"] set_candidates[of "toLowerCase term"]
    by (simp add: generateSearchVariations_eq)
qed

lemma variations_first_seen_example:
  "generateSearchVariations ''Kick''
     = [''Kick'', ''cick'', ''ckick'', ''keck'', ''kack'', ''kikk'', ''kisk'', ''kicc'', ''kicck'']"
proof -
  have "candidates (toLowerCase ''Kick'')
      = [''cick'', ''ckick'', ''keck'', ''kack'', ''kikk'', ''kisk'', ''kicc'', ''kicck'']"
    by code_simp
  moreover have "toLowerCase ''Kick'' = ''kick''" by code_simp
  ultimately show ?thesis
    using variations_first_seen[of "''Kick''"] by simp
qed

text \<open>
  C9. The claim has the entries \<open>ph/f\<close> and \<open>tion/sion\<close> applied where they occur, and
  the table of the source does list them. The loop looks the table up with the single
  character \<^verbatim>\<open>lowerTerm[i]\<close>, so a key of several characters is never found: for
  \<open>phone\<close> the variations are the vowel substitutions only and \<open>fone\<close> is not among
  them, and \<open>nasion\<close> is not among the variations of \<open>nation\<close>.
\<close>

theorem multi_character_keys_never_apply:
  "map_of substitutions ''ph'' = Some [''f'']
   \<and> map_of substitutions ''tion'' = Some [''sion'']
   \<and> map_of substitutions ''sion'' = Some [''tion'']
   \<and> generateSearchVariations ''phone''
       = [''phone'', ''phune'', ''phane'', ''phoni'', ''phona'']
   \<and> ''fone'' \<notin> set (generateSearchVariations ''phone'')
   \<and> generateSearchVariations ''nation''
       = [''nation'', ''netion'', ''nition'', ''nateon'', ''nataon'', ''natiun'', ''natian'']
   \<and> ''nasion'' \<notin> set (generateSearchVariations ''nation'')"
  by code_simp

subsection \<open>The dispatched batch\<close>










subsection \<open>Sorting and cutting\<close>

lemma length_insert_sorted [simp]: "length (insert_sorted cmp x ys) = Suc (length ys)"
  by (induction ys) simp_all

lemma set_insert_sorted [simp]: "set (insert_sorted cmp x ys) = insert x (set ys)"
  by (induction ys) auto

lemma length_js_sort [simp]: "length (js_sort cmp xs) = length xs"
  unfolding js_sort_def by (induction xs) simp_all

lemma set_js_sort [simp]: "set (js_sort cmp xs) = set xs"
  unfolding js_sort_def by (induction xs) simp_all

lemma compare_score_Num:
  "score_of a = Num x \<Longrightarrow> score_of b = Num y \<Longrightarrow>
   js_gt (compare_score a b) (Num 0) \<longleftrightarrow> x < y"
  by (simp add: compare_score_def js_sub_def)

lemma sorted_insert_sorted:
  assumes "\<forall>m \<in> set (x # ys). \<exists>r. score_of m = Num r"
    and "sorted_wrt (\<lambda>a b. js_ge (score_of a) (score_of b)) ys"
  shows "sorted_wrt (\<lambda>a b. js_ge (score_of a) (score_of b)) (insert_sorted compare_score x ys)"
  using assms
proof (induction ys)
  case Nil
  then show ?case by simp
next
  case (Cons y ys)
  obtain rx where rx: "score_of x = Num rx" using Cons.prems(1) by auto
  obtain ry where ry: "score_of y = Num ry" using Cons.prems(1) by auto
  show ?case
  proof (cases "rx < ry")
    case True
    then have "insert_sorted compare_score x (y # ys) = y # insert_sorted compare_score x ys"
      using compare_score_Num[OF rx ry] by simp
    moreover have "sorted_wrt (\<lambda>a b. js_ge (score_of a) (score_of b)) (insert_sorted compare_score x ys)"
      using Cons by simp
    moreover have "js_ge (score_of y) (score_of x)"
      using True by (simp add: rx ry js_ge_Num)
    ultimately show ?thesis using Cons.prems(2) by simp
  next
    case False
    then have eq: "insert_sorted compare_score x (y # ys) = x # y # ys"
      using compare_score_Num[OF rx ry] by simp
    have "js_ge (score_of x) (score_of z)" if zin: "z \<in> set (y # ys)" for z
    proof -
      obtain rz where rz: "score_of z = Num rz" using Cons.prems(1) zin by auto
      have "js_ge (score_of y) (score_of z) \<or> z = y" using Cons.prems(2) zin by auto
      then have "rz \<le> ry" using ry rz by (auto simp add: js_ge_Num)
      then show ?thesis using False by (simp add: rx rz js_ge_Num)
    qed
    then show ?thesis using eq Cons.prems(2) by simp
  qed
qed

lemma sorted_js_sort:
  assumes "\<forall>m \<in> set xs. \<exists>r. score_of m = Num r"
  shows "sorted_wrt (\<lambda>a b. js_ge (score_of a) (score_of b)) (js_sort compare_score xs)"
  using assms
proof (induction xs)
  case Nil
  show ?case by (simp add: js_sort_def)
next
  case (Cons x xs)
  have s: "sorted_wrt (\<lambda>a b. js_ge (score_of a) (score_of b)) (js_sort compare_score xs)"
    using Cons by simp
  have "\<forall>m \<in> set (x # js_sort compare_score xs). \<exists>r. score_of m = Num r"
    using Cons.prems by simp
  from sorted_insert_sorted[OF this s] show ?case by (simp add: js_sort_def)
qed

lemma map_throw_Inr:
  "map_throw f xs = Inr ys \<Longrightarrow> list_all2 (\<lambda>x y. f x = Inr y) xs ys"
  by (induction xs arbitrary: ys) (auto split: sum.splits)

lemma attach_score_Num:
  assumes "query \<noteq> []" "attach_score query m = Inr m'"
  shows "\<exists>r. score_of m' = Num r"
proof -
  obtain t where t: "title m = Some t"
    using assms(2) by (auto simp add: attach_score_def calculateRelevanceScore_def split: option.splits)
  have ql: "toLowerCase query \<noteq> []" using assms(1) by (simp add: toLowerCase_Nil_iff)
  show ?thesis
    using assms(2) score_title_Num[OF ql]
    by (auto simp add: attach_score_def calculateRelevanceScore_def t score_of_def)
qed

lemma scoredResults_Num:
  assumes "query \<noteq> []" "scoredResults unique query = Inr scored"
  shows "\<forall>m \<in> set scored. \<exists>r. score_of m = Num r"
proof -
  have "list_all2 (\<lambda>x y. attach_score query x = Inr y) unique scored"
    using assms(2) unfolding scoredResults_def by (rule map_throw_Inr)
  then have all: "length unique = length scored"
    "\<And>i. i < length scored \<Longrightarrow> attach_score query (unique ! i) = Inr (scored ! i)"
    by (simp_all add: list_all2_conv_all_nth)
  show ?thesis
  proof
    fix m assume "m \<in> set scored"
    then obtain i where i: "i < length scored" "scored ! i = m"
      by (auto simp add: in_set_conv_nth)
    show "\<exists>r. score_of m = Num r"
      using attach_score_Num[OF assms(1) all(2)[OF i(1)]] i(2) by simp
  qed
qed

lemma slice_0: "slice xs 0 n = take n xs"
  by (simp add: slice_def)

lemma rankedResults_sorted:
  assumes "query \<noteq> []" "rankedResults fetch query = Inr L"
  shows "length L \<le> 20 \<and> sorted_wrt (\<lambda>a b. js_ge (score_of a) (score_of b)) L"
proof -
  obtain unique scored where sc: "scoredResults unique query = Inr scored"
    and L: "L = slice (js_sort compare_score scored) 0 20"
    using assms(2) by (auto simp add: rankedResults_def split: sum.splits)
  have "sorted_wrt (\<lambda>a b. js_ge (score_of a) (score_of b)) (js_sort compare_score scored)"
    using scoredResults_Num[OF assms(1) sc] by (rule sorted_js_sort)
  then show ?thesis unfolding L slice_0 by (simp add: sorted_wrt_take)
qed

lemma fetchMovies_no_error:
  assumes "query \<noteq> []" "errorMessage (fetchMovies fetch counter query st) = []"
  shows "rankedResults fetch query = Inr (movieList (fetchMovies fetch counter query st))"
proof (cases "rankedResults fetch query")
  case (Inl e)
  then show ?thesis using assms
    by (simp add: fetchMovies_def search_branch_def)
next
  case (Inr L)
  show ?thesis
  proof (cases "counter query (L ! 0)")
    case (Pair s logs)
    then show ?thesis using assms Inr
      by (cases s; cases L) (simp_all add: fetchMovies_def search_branch_def Let_def)
  qed
qed

text \<open>
  C1. For every non-empty query, a ranked list that the pipeline produces has at most
  20 items and is sorted by descending relevance score: each item scores at least as
  much as the next one. A search that ends without an error message has delivered that
  list.
\<close>

theorem ranked_list_bounded_and_sorted:
  assumes "query \<noteq> []"
  shows "(\<forall>L. rankedResults fetch query = Inr L \<longrightarrow>
            length L \<le> 20
            \<and> (\<forall>i. Suc i < length L \<longrightarrow> js_ge (score_of (L ! i)) (score_of (L ! Suc i)))
            \<and> sorted_wrt (\<lambda>a b. js_ge (score_of a) (score_of b)) L)
    \<and> (errorMessage (fetchMovies fetch counter query st) = [] \<longrightarrow>
          rankedResults fetch query = Inr (movieList (fetchMovies fetch counter query st)))"
proof -
  have "length L \<le> 20
        \<and> (\<forall>i. Suc i < length L \<longrightarrow> js_ge (score_of (L ! i)) (score_of (L ! Suc i)))
        \<and> sorted_wrt (\<lambda>a b. js_ge (score_of a) (score_of b)) L"
    if r: "rankedResults fetch query = Inr L" for L
  proof -
    have s: "sorted_wrt (\<lambda>a b. js_ge (score_of a) (score_of b)) L" and l: "length L \<le> 20"
      using rankedResults_sorted[OF assms r] by simp_all
    have "js_ge (score_of (L ! i)) (score_of (L ! Suc i))" if "Suc i < length L" for i
      using s that by (simp add: sorted_wrt_iff_nth_less)
    then show ?thesis using s l by simp
  qed
  then show ?thesis using fetchMovies_no_error[OF assms] by blast
qed

theorem ranked_list_bounded_and_sorted_witness:
  "fetchMovies found_up quiet_counter ''up'' idle_state
     = idle_state\<lparr>movieList :=
         [(up_movie 2 ''Up'')\<lparr>relevanceScore := Some (Num 370)\<rparr>,
          (up_movie 1 ''Upstream'')\<lparr>relevanceScore := Some (Num 170)\<rparr>]\<rparr>
   \<and> js_ge (Num 370) (Num 170)"
proof -
  have q: "''up'' \<noteq> []" by simp
  have e: "fetchMovies found_up quiet_counter ''up'' idle_state
     = idle_state\<lparr>movieList :=
         [(up_movie 2 ''Up'')\<lparr>relevanceScore := Some (Num 370)\<rparr>,
          (up_movie 1 ''Upstream'')\<lparr>relevanceScore := Some (Num 170)\<rparr>]\<rparr>"
    by code_simp
  have m: "errorMessage (fetchMovies found_up quiet_counter ''up'' idle_state) = []"
    unfolding e by (simp add: idle_state_def)
  have r: "rankedResults found_up ''up''
      = Inr [(up_movie 2 ''Up'')\<lparr>relevanceScore := Some (Num 370)\<rparr>,
             (up_movie 1 ''Upstream'')\<lparr>relevanceScore := Some (Num 170)\<rparr>]"
    using ranked_list_bounded_and_sorted[OF q, of found_up quiet_counter idle_state] m
    unfolding e by (simp add: idle_state_def)
  have "js_ge (score_of ((up_movie 2 ''Up'')\<lparr>relevanceScore := Some (Num 370)\<rparr>))
          (score_of ((up_movie 1 ''Upstream'')\<lparr>relevanceScore := Some (Num 170)\<rparr>))"
    using ranked_list_bounded_and_sorted[OF q, of found_up quiet_counter idle_state] r
    by simp
  then show ?thesis using e by (simp add: score_of_def)
qed

subsection \<open>Failing requests\<close>

lemma promise_all_resolved:
  assumes "\<forall>x \<in> set os. \<exists>r. x = Resolved r \<and> \<not> ok r"
  shows "\<exists>rs. promise_all os = Inr rs \<and> (\<forall>r \<in> set rs. \<not> ok r)"
  using assms
proof (induction os)
  case Nil
  show ?case by simp
next
  case (Cons x os)
  obtain r where r: "x = Resolved r" "\<not> ok r" using Cons.prems by auto
  obtain rs where rs: "promise_all os = Inr rs" "\<forall>r \<in> set rs. \<not> ok r"
    using Cons by auto
  show ?case using r rs by simp
qed

lemma collect_results_not_ok:
  "\<forall>r \<in> set rs. \<not> ok r \<Longrightarrow> collect_results acc rs = Inr acc"
  by (induction rs arbitrary: acc) simp_all

lemma outcomes_nth:
  assumes "x \<in> set (map (\<lambda>(i, r). fetch i r) (enumerate 0 reqs))"
  shows "\<exists>i < length reqs. x = fetch i (reqs ! i)"
proof -
  obtain i r where ir: "(i, r) \<in> set (enumerate 0 reqs)" "x = fetch i r"
    using assms by auto
  then have "i < length reqs" "reqs ! i = r"
    by (simp_all add: in_set_enumerate_eq)
  then show ?thesis using ir(2) by blast
qed

lemma promise_all_rejected:
  "Rejected \<in> set os \<Longrightarrow> promise_all os = Inl NetworkError"
proof (induction os)
  case Nil
  then show ?case by simp
next
  case (Cons x os)
  then show ?case by (cases x) (auto split: sum.splits)
qed

lemma promise_all_Inr:
  "promise_all os = Inr rs \<Longrightarrow> os = map Resolved rs"
proof (induction os arbitrary: rs)
  case Nil
  then show ?case by simp
next
  case (Cons x os)
  then show ?case by (cases x) (auto split: sum.splits)
qed

lemma outcomes_at:
  assumes "i < length reqs"
  shows "map (\<lambda>(i, r). fetch i r) (enumerate 0 reqs) ! i = fetch i (reqs ! i)"
  using assms by (simp add: nth_enumerate_eq)

lemma outcomes_map:
  "map (\<lambda>(i, r). fetch i r) (enumerate 0 reqs) = map (\<lambda>i. fetch i (reqs ! i)) [0..<length reqs]"
  by (rule nth_equalityI) (simp_all add: nth_enumerate_eq)

lemma promise_all_map_Resolved: "promise_all (map Resolved rs) = Inr rs"
  by (induction rs) simp_all

lemma all_resolved_list:
  assumes "\<forall>x \<in> set os. \<exists>r. x = Resolved r \<and> (ok r \<longrightarrow> body r \<noteq> Unparsable)"
  shows "\<exists>rs. os = map Resolved rs \<and> (\<forall>r \<in> set rs. ok r \<longrightarrow> body r \<noteq> Unparsable)"
  using assms
proof (induction os)
  case Nil
  show ?case by simp
next
  case (Cons x os)
  obtain r where r: "x = Resolved r" "ok r \<longrightarrow> body r \<noteq> Unparsable"
    using Cons.prems by auto
  obtain rs where rs: "os = map Resolved rs" "\<forall>r \<in> set rs. ok r \<longrightarrow> body r \<noteq> Unparsable"
    using Cons by auto
  show ?case
  proof (intro exI conjI)
    show "x # os = map Resolved (r # rs)" using r(1) rs(1) by simp
    show "\<forall>r' \<in> set (r # rs). ok r' \<longrightarrow> body r' \<noteq> Unparsable"
      using r(2) rs(2) by simp
  qed
qed

lemma collect_results_items:
  "\<forall>r \<in> set rs. ok r \<longrightarrow> body r \<noteq> Unparsable \<Longrightarrow>
   collect_results acc rs = Inr (acc @ concat (map (\<lambda>r. response_items (Resolved r)) rs))"
proof (induction rs arbitrary: acc)
  case Nil
  show ?case by simp
next
  case (Cons r rs)
  then show ?case
    by (cases "body r") (auto simp add: response_items_def split: option.splits)
qed

text \<open>
  When every request is rejected, the search ends with the error message.
\<close>

theorem all_requests_rejected_counterexample:
  "fetchMovies all_rejected quiet_counter ''up'' idle_state
     = \<lparr>movieList = [], errorMessage = ''Error fetching movies. Please try again later.'',
        isLoading = False, console = [ErrorFetchingMovies NetworkError]\<rparr>"
  by code_simp

text \<open>
  C2, as amended. For a non-empty query with a dispatched batch: if every request
  resolves with a status that is not a success, the search completes with the empty
  list and without an error; if one request is rejected, the search fails with the error
  message and delivers no list; and results are merged only when every dispatched
  request has resolved. No response with a status that is not a success aborts the
  batch: when every request resolves and the successful bodies parse, such a response is
  skipped and the ranked list is the ranking of the items of all the successful
  responses, in the order of dispatch.
\<close>

theorem sub_request_failures:
  assumes "query \<noteq> []" and "dispatched query = Inr reqs"
  shows "((\<forall>i < length reqs. \<exists>r. fetch i (reqs ! i) = Resolved r \<and> \<not> ok r) \<longrightarrow>
            rankedResults fetch query = Inr []
            \<and> fetchMovies fetch counter query st
                = st\<lparr>movieList := [], errorMessage := [], isLoading := False\<rparr>)
    \<and> ((\<exists>i < length reqs. fetch i (reqs ! i) = Rejected) \<longrightarrow>
            fetchMovies fetch counter query st
              = st\<lparr>errorMessage := ''Error fetching movies. Please try again later.'',
                   isLoading := False,
                   console := console st @ [ErrorFetchingMovies NetworkError]\<rparr>)
    \<and> (\<forall>L. rankedResults fetch query = Inr L \<longrightarrow>
            (\<forall>i < length reqs. \<exists>r. fetch i (reqs ! i) = Resolved r))
    \<and> ((\<forall>i < length reqs. \<exists>r. fetch i (reqs ! i) = Resolved r
                                \<and> (ok r \<longrightarrow> body r \<noteq> Unparsable)) \<longrightarrow>
            rankedResults fetch query
              = (case scoredResults
                        (uniqueResults
                           (concat (map (\<lambda>i. response_items (fetch i (reqs ! i)))
                                      [0..<length reqs])))
                        query of
                   Inl e \<Rightarrow> Inl e
                 | Inr scored \<Rightarrow> Inr (slice (js_sort compare_score scored) 0 20)))"
proof (intro conjI impI allI)
  assume a: "\<forall>i < length reqs. \<exists>r. fetch i (reqs ! i) = Resolved r \<and> \<not> ok r"
  have "\<forall>x \<in> set (map (\<lambda>(i, r). fetch i r) (enumerate 0 reqs)). \<exists>r. x = Resolved r \<and> \<not> ok r"
    using a outcomes_nth[of _ fetch reqs] by metis
  from promise_all_resolved[OF this] obtain rs where
    rs: "promise_all (map (\<lambda>(i, r). fetch i r) (enumerate 0 reqs)) = Inr rs"
      "\<forall>r \<in> set rs. \<not> ok r" by blast
  have c: "collect_results [] rs = Inr []" using rs(2) by (rule collect_results_not_ok)
  show r: "rankedResults fetch query = Inr []"
    by (simp add: rankedResults_def assms(2) rs(1) c uniqueResults_def scoredResults_def
          js_sort_def slice_def)
  show "fetchMovies fetch counter query st
          = st\<lparr>movieList := [], errorMessage := [], isLoading := False\<rparr>"
    using assms(1) by (simp add: r fetchMovies_def search_branch_def)
next
  assume "\<exists>i < length reqs. fetch i (reqs ! i) = Rejected"
  then obtain i where i: "i < length reqs" "fetch i (reqs ! i) = Rejected" by blast
  have "map (\<lambda>(i, r). fetch i r) (enumerate 0 reqs) ! i = Rejected"
    using outcomes_at[OF i(1), of fetch] i(2) by simp
  moreover have "i < length (map (\<lambda>(i, r). fetch i r) (enumerate 0 reqs))"
    using i(1) by simp
  ultimately have "Rejected \<in> set (map (\<lambda>(i, r). fetch i r) (enumerate 0 reqs))"
    by (metis nth_mem)
  then have "promise_all (map (\<lambda>(i, r). fetch i r) (enumerate 0 reqs)) = Inl NetworkError"
    by (rule promise_all_rejected)
  then have "rankedResults fetch query = Inl NetworkError"
    by (simp add: rankedResults_def assms(2))
  then show "fetchMovies fetch counter query st
      = st\<lparr>errorMessage := ''Error fetching movies. Please try again later.'',
           isLoading := False,
           console := console st @ [ErrorFetchingMovies NetworkError]\<rparr>"
    using assms(1) by (simp add: fetchMovies_def search_branch_def)
next
  fix L i
  assume r: "rankedResults fetch query = Inr L" and i: "i < length reqs"
  obtain rs where "promise_all (map (\<lambda>(i, r). fetch i r) (enumerate 0 reqs)) = Inr rs"
    using r by (auto simp add: rankedResults_def assms(2) split: sum.splits)
  then have m: "map (\<lambda>(i, r). fetch i r) (enumerate 0 reqs) = map Resolved rs"
    by (rule promise_all_Inr)
  then have "length rs = length reqs" by (metis length_map length_enumerate)
  then have "map (\<lambda>(i, r). fetch i r) (enumerate 0 reqs) ! i = Resolved (rs ! i)"
    using i unfolding m by simp
  then show "\<exists>r. fetch i (reqs ! i) = Resolved r"
    using outcomes_at[OF i, of fetch] by simp
next
  assume a: "\<forall>i < length reqs. \<exists>r. fetch i (reqs ! i) = Resolved r
                                \<and> (ok r \<longrightarrow> body r \<noteq> Unparsable)"
  let ?os = "map (\<lambda>i. fetch i (reqs ! i)) [0..<length reqs]"
  have "\<forall>x \<in> set ?os. \<exists>r. x = Resolved r \<and> (ok r \<longrightarrow> body r \<noteq> Unparsable)"
    using a by auto
  from all_resolved_list[OF this] obtain rs where
    rs: "?os = map Resolved rs" "\<forall>r \<in> set rs. ok r \<longrightarrow> body r \<noteq> Unparsable" by blast
  have p: "promise_all (map (\<lambda>(i, r). fetch i r) (enumerate 0 reqs)) = Inr rs"
    unfolding outcomes_map rs(1) by (rule promise_all_map_Resolved)
  have "concat (map (\<lambda>r. response_items (Resolved r)) rs) = concat (map response_items ?os)"
    unfolding rs(1) by (simp add: comp_def)
  also have "\<dots> = concat (map (\<lambda>i. response_items (fetch i (reqs ! i))) [0..<length reqs])"
    by (simp add: comp_def)
  finally have c: "collect_results [] rs
      = Inr (concat (map (\<lambda>i. response_items (fetch i (reqs ! i))) [0..<length reqs]))"
    using collect_results_items[OF rs(2), of "[]"] by simp
  show "rankedResults fetch query
      = (case scoredResults
                (uniqueResults
                   (concat (map (\<lambda>i. response_items (fetch i (reqs ! i)))
                              [0..<length reqs])))
                query of
           Inl e \<Rightarrow> Inl e
         | Inr scored \<Rightarrow> Inr (slice (js_sort compare_score scored) 0 20))"
    by (simp add: rankedResults_def assms(2) p c)
qed

theorem sub_request_failures_witness:
  "fetchMovies all_unavailable quiet_counter ''up'' idle_state = idle_state
   \<and> fetchMovies all_rejected quiet_counter ''up'' idle_state
       = idle_state\<lparr>errorMessage := ''Error fetching movies. Please try again later.'',
           console := [ErrorFetchingMovies NetworkError]\<rparr>
   \<and> rankedResults first_only ''up''
       = Inr [(up_movie 2 ''Up'')\<lparr>relevanceScore := Some (Num 370)\<rparr>]"
proof -
  let ?reqs = "map SearchMovie [''up'', ''op'', ''ip'', ''up'']"
  have q: "''up'' \<noteq> []" by simp
  have d: "dispatched ''up'' = Inr ?reqs"
    by code_simp
  have a: "\<forall>i < length ?reqs. \<exists>r. all_unavailable i (?reqs ! i) = Resolved r \<and> \<not> ok r"
    by (simp add: all_unavailable_def)
  have b: "\<exists>i < length ?reqs. all_rejected i (?reqs ! i) = Rejected"
    by (rule exI[of _ 0]) (simp add: all_rejected_def)
  have c: "\<forall>i < length ?reqs. \<exists>r. first_only i (?reqs ! i) = Resolved r
                                \<and> (ok r \<longrightarrow> body r \<noteq> Unparsable)"
    by (simp add: first_only_def)
  have e: "(case scoredResults
                  (uniqueResults
                     (concat (map (\<lambda>i. response_items (first_only i (?reqs ! i)))
                                [0..<length ?reqs])))
                  ''up'' of
             Inl e \<Rightarrow> Inl e
           | Inr scored \<Rightarrow> Inr (slice (js_sort compare_score scored) 0 20))
        = Inr [(up_movie 2 ''Up'')\<lparr>relevanceScore := Some (Num 370)\<rparr>]"
    by code_simp
  have "fetchMovies all_unavailable quiet_counter ''up'' idle_state = idle_state"
    using a sub_request_failures[OF q d, of all_unavailable quiet_counter idle_state]
    by (simp add: idle_state_def)
  moreover have "fetchMovies all_rejected quiet_counter ''up'' idle_state
       = idle_state\<lparr>errorMessage := ''Error fetching movies. Please try again later.'',
           console := [ErrorFetchingMovies NetworkError]\<rparr>"
    using b sub_request_failures[OF q d, of all_rejected quiet_counter idle_state]
    by (simp add: idle_state_def)
  moreover have "rankedResults first_only ''up''
       = Inr [(up_movie 2 ''Up'')\<lparr>relevanceScore := Some (Num 370)\<rparr>]"
    using c e sub_request_failures[OF q d, of first_only quiet_counter idle_state]
    by (simp only:)
  ultimately show ?thesis by simp
qed

subsection \<open>The counter call\<close>




end
